theory Spec2Isabelle
  imports Main "HOL-Library.Word" "HOL-Library.Monad_Syntax"
begin

section \<open>Behaviour tree: outcomes and node ticks\<close>

text \<open>
  \<^verbatim>\<open>enum class Status { Invalid, Success, Failure, Running }\<close> of
  \<^verbatim>\<open>ofxBehaviourTree.h\<close>.
\<close>

datatype Status = Invalid | Success | Failure | Running

text \<open>
  \<^verbatim>\<open>BaseNode::tick(Tree*)\<close> is virtual: a composite sees a child only as
  something that, ticked, returns a \<^typ>\<open>Status\<close> and may have changed whatever it can
  reach (the tree, its own members, what a host callable captured). A child is therefore a
  state transformer over the state \<open>'s\<close> of everything reachable, and a
  \<^verbatim>\<open>NodePtr\<close>, which may be null, is an \<open>option\<close> of it.
\<close>

type_synonym 's NodeTick = "'s \<Rightarrow> Status \<times> 's"

type_synonym 's NodePtr = "'s NodeTick option"

text \<open>
  Dereferencing a null pointer, popping an empty \<^verbatim>\<open>std::stack\<close>,
  \<^verbatim>\<open>operator[]\<close> of a \<^verbatim>\<open>std::vector\<close> out of range and reading a member
  that was never given a value are undefined behaviour in the source; the model makes them
  a value.
\<close>

datatype fault =
  NullPointerDereference | EmptyStackPop | IndexOutOfRange | IndeterminateValueRead

subsection \<open>SelectorNode\<close>

text \<open>
  The range-for of \<^verbatim>\<open>SelectorNode::tick\<close>; the value after the loop is the
  source's \<^verbatim>\<open>return Status::Success\<close>.
\<close>

fun SelectorNode_loop :: "'s NodePtr list \<Rightarrow> 's \<Rightarrow> Status \<times> 's" where
  "SelectorNode_loop [] s = (Success, s)"
| "SelectorNode_loop (None # children) s = (Invalid, s)"
| "SelectorNode_loop (Some child # children) s =
     (case child s of (status, s') \<Rightarrow>
        if status \<noteq> Failure then (status, s') else SelectorNode_loop children s')"

definition SelectorNode_tick :: "'s NodePtr list \<Rightarrow> 's \<Rightarrow> Status \<times> 's" where
  "SelectorNode_tick m_children s =
     (if m_children = [] then (Invalid, s) else SelectorNode_loop m_children s)"

subsection \<open>SequenceNode\<close>

fun SequenceNode_loop :: "'s NodePtr list \<Rightarrow> 's \<Rightarrow> Status \<times> 's" where
  "SequenceNode_loop [] s = (Success, s)"
| "SequenceNode_loop (None # children) s = (Invalid, s)"
| "SequenceNode_loop (Some child # children) s =
     (case child s of (status, s') \<Rightarrow>
        if status \<noteq> Success then (status, s') else SequenceNode_loop children s')"

definition SequenceNode_tick :: "'s NodePtr list \<Rightarrow> 's \<Rightarrow> Status \<times> 's" where
  "SequenceNode_tick m_children s =
     (if m_children = [] then (Invalid, s) else SequenceNode_loop m_children s)"

subsection \<open>ParallelNode\<close>

text \<open>
  The body of \<^verbatim>\<open>ParallelNode::tick\<close> is \<^verbatim>\<open>return Status();\<close>: the
  value-initialised enumeration, whose value 0 is \<^verbatim>\<open>Invalid\<close>. Neither the
  threshold nor a child is used.
\<close>

definition ParallelNode_tick :: "nat \<Rightarrow> 's NodePtr list \<Rightarrow> 's \<Rightarrow> Status \<times> 's" where
  "ParallelNode_tick m_threshold m_children s = (Invalid, s)"

subsection \<open>RepeatDecoratorNode\<close>

text \<open>
  \<^verbatim>\<open>for (size_t i = m_loopCount; i > 0; i--)\<close>: the counter only counts down to 0,
  so it is a \<open>nat\<close>; the third argument is the local \<^verbatim>\<open>status\<close>.
\<close>

fun RepeatDecoratorNode_loop :: "nat \<Rightarrow> 's NodeTick \<Rightarrow> Status \<Rightarrow> 's \<Rightarrow> Status \<times> 's" where
  "RepeatDecoratorNode_loop 0 child status s = (status, s)"
| "RepeatDecoratorNode_loop (Suc i) child status s =
     (case child s of (status', s') \<Rightarrow>
        if status' = Running \<or> status' = Invalid then (status', s')
        else RepeatDecoratorNode_loop i child status' s')"

definition RepeatDecoratorNode_tick :: "nat \<Rightarrow> 's NodePtr \<Rightarrow> 's \<Rightarrow> Status \<times> 's" where
  "RepeatDecoratorNode_tick m_loopCount m_child s =
     (case m_child of
        None \<Rightarrow> (Invalid, s)
      | Some child \<Rightarrow> RepeatDecoratorNode_loop m_loopCount child Invalid s)"

subsection \<open>RepeatWhileSuccessfulNode and RepeatWhileFailureNode\<close>

text \<open>
  Both loops call \<^verbatim>\<open>child->tick(tree)\<close> with no test of the pointer.
\<close>

fun RepeatWhileSuccessfulNode_loop :: "'s NodePtr list \<Rightarrow> 's \<Rightarrow> fault + Status \<times> 's" where
  "RepeatWhileSuccessfulNode_loop [] s = Inr (Running, s)"
| "RepeatWhileSuccessfulNode_loop (None # children) s = Inl NullPointerDereference"
| "RepeatWhileSuccessfulNode_loop (Some child # children) s =
     (case child s of (status, s') \<Rightarrow>
        if status \<noteq> Success then Inr (status, s')
        else RepeatWhileSuccessfulNode_loop children s')"

definition RepeatWhileSuccessfulNode_tick :: "'s NodePtr list \<Rightarrow> 's \<Rightarrow> fault + Status \<times> 's" where
  "RepeatWhileSuccessfulNode_tick m_children s =
     (if m_children = [] then Inr (Invalid, s)
      else RepeatWhileSuccessfulNode_loop m_children s)"

fun RepeatWhileFailureNode_loop :: "'s NodePtr list \<Rightarrow> 's \<Rightarrow> fault + Status \<times> 's" where
  "RepeatWhileFailureNode_loop [] s = Inr (Running, s)"
| "RepeatWhileFailureNode_loop (None # children) s = Inl NullPointerDereference"
| "RepeatWhileFailureNode_loop (Some child # children) s =
     (case child s of (status, s') \<Rightarrow>
        if status \<noteq> Failure then Inr (status, s')
        else RepeatWhileFailureNode_loop children s')"

definition RepeatWhileFailureNode_tick :: "'s NodePtr list \<Rightarrow> 's \<Rightarrow> fault + Status \<times> 's" where
  "RepeatWhileFailureNode_tick m_children s =
     (if m_children = [] then Inr (Invalid, s)
      else RepeatWhileFailureNode_loop m_children s)"

subsection \<open>DecisionNode\<close>

text \<open>\<^verbatim>\<open>p->tick(tree)\<close> on a pointer that the source does not test.\<close>

definition tick_ptr :: "'s NodePtr \<Rightarrow> 's \<Rightarrow> fault + Status \<times> 's" where
  "tick_ptr p s = (case p of None \<Rightarrow> Inl NullPointerDereference | Some node \<Rightarrow> Inr (node s))"

record 's StrategyNode =
  m_condition :: "'s NodePtr"
  m_action :: "'s NodePtr"

text \<open>
  The member \<^verbatim>\<open>StrategyNode* m_current\<close>: a raw pointer, which is null, or points
  to a strategy, or, as long as nothing has been assigned to it, holds an indeterminate
  value. A strategy is immutable in the model (what its nodes change is in the state), so
  a pointer to a strategy is the strategy itself.
\<close>

datatype 'a member_ptr = Indeterminate | NullPtr | PointsTo 'a

text \<open>
  A \<^verbatim>\<open>DecisionNode\<close> is its members \<^verbatim>\<open>m_strategies\<close> and
  \<^verbatim>\<open>m_current\<close> (the label \<^verbatim>\<open>m_ref\<close> of \<^verbatim>\<open>BaseNode\<close> plays no part
  in a tick). The constructor
  \<^verbatim>\<open>DecisionNode(ref, strategies) : BaseNode(ref), m_strategies(std::move(strategies)) {}\<close>
  has no initialiser for \<^verbatim>\<open>m_current\<close>, and the declaration of the member has
  none either.
\<close>

type_synonym 's DecisionNode = "'s StrategyNode option list \<times> 's StrategyNode member_ptr"

definition DecisionNode_ctor :: "'s StrategyNode option list \<Rightarrow> 's DecisionNode" where
  "DecisionNode_ctor strategies = (strategies, Indeterminate)"

text \<open>
  The \<^verbatim>\<open>else\<close> branch of \<^verbatim>\<open>DecisionNode::tick\<close>, entered with
  \<^verbatim>\<open>m_current\<close> null: the scan of \<^verbatim>\<open>m_strategies\<close>. The second component
  of the result is \<^verbatim>\<open>m_current\<close> when the tick returns.
\<close>

fun DecisionNode_scan ::
  "'s StrategyNode option list \<Rightarrow> 's
    \<Rightarrow> fault + Status \<times> 's StrategyNode member_ptr \<times> 's" where
  "DecisionNode_scan [] s = Inr (Invalid, NullPtr, s)"
| "DecisionNode_scan (None # strategies) s = Inl NullPointerDereference"
| "DecisionNode_scan (Some strategy # strategies) s =
     (case tick_ptr (m_condition strategy) s of
        Inl e \<Rightarrow> Inl e
      | Inr (condition, s1) \<Rightarrow>
          if condition = Success then
            (case tick_ptr (m_action strategy) s1 of
               Inl e \<Rightarrow> Inl e
             | Inr (result, s2) \<Rightarrow>
                 Inr (result, if result = Running then PointsTo strategy else NullPtr, s2))
          else if condition \<noteq> Failure then Inr (condition, NullPtr, s1)
          else DecisionNode_scan strategies s1)"

text \<open>
  \<^verbatim>\<open>DecisionNode::tick\<close>: it returns the status, the node with its
  \<^verbatim>\<open>m_current\<close> as the tick leaves it, and the state. The first thing it does is
  \<^verbatim>\<open>if (m_current)\<close>, a read of the member.
\<close>

definition DecisionNode_tick ::
  "'s DecisionNode \<Rightarrow> 's \<Rightarrow> fault + Status \<times> 's DecisionNode \<times> 's" where
  "DecisionNode_tick node s =
     (case node of (m_strategies, current) \<Rightarrow>
        (case current of
           Indeterminate \<Rightarrow> Inl IndeterminateValueRead
         | PointsTo cur \<Rightarrow>
             (case tick_ptr (m_action cur) s of
                Inl e \<Rightarrow> Inl e
              | Inr (result, s') \<Rightarrow>
                  Inr (result,
                       (m_strategies, if result \<noteq> Running then NullPtr else PointsTo cur), s'))
         | NullPtr \<Rightarrow>
             (case DecisionNode_scan m_strategies s of
                Inl e \<Rightarrow> Inl e
              | Inr (result, current', s') \<Rightarrow> Inr (result, (m_strategies, current'), s'))))"

section \<open>Fact store, scopes and reference resolution\<close>

text \<open>
  \<^verbatim>\<open>DictBlackboard\<close>: a \<^verbatim>\<open>std::map<std::string, std::string>\<close>. Any other
  \<^verbatim>\<open>Blackboard\<close> answers \<^verbatim>\<open>getFact\<close> as some function from names to optional
  values too, which is all that \<^verbatim>\<open>getFactRef\<close> uses of it.
\<close>

type_synonym Blackboard = "string \<rightharpoonup> string"

definition setFact :: "Blackboard \<Rightarrow> string \<Rightarrow> string \<Rightarrow> Blackboard" where
  "setFact m_dict factName data = m_dict(factName \<mapsto> data)"

definition getFact :: "Blackboard \<Rightarrow> string \<Rightarrow> string option" where
  "getFact m_dict factName = m_dict factName"

definition removeFact :: "Blackboard \<Rightarrow> string \<Rightarrow> Blackboard" where
  "removeFact m_dict factName = m_dict(factName := None)"

definition factExists :: "Blackboard \<Rightarrow> string \<Rightarrow> bool" where
  "factExists m_dict factName = (m_dict factName \<noteq> None)"

text \<open>
  \<^verbatim>\<open>NodeScope\<close> is its map \<^verbatim>\<open>m_values\<close>. A \<^verbatim>\<open>Tree\<close> is modelled by what
  a tick can reach through \<^verbatim>\<open>Tree*\<close>: the fact store, the scope stack (top first)
  and, in \<open>host\<close>, everything else that nodes and host callables change.
\<close>

type_synonym NodeScope = "string \<rightharpoonup> string"

definition getScopeVar :: "NodeScope \<Rightarrow> string \<Rightarrow> string option" where
  "getScopeVar m_values key = m_values key"

record 'w Tree =
  m_blackboard :: Blackboard
  m_scopeStack :: "NodeScope list"
  host :: 'w

definition getScopedVar :: "'w Tree \<Rightarrow> string \<Rightarrow> string option" where
  "getScopedVar tree varName =
     (case m_scopeStack tree of [] \<Rightarrow> None | frame # below \<Rightarrow> getScopeVar frame varName)"

definition pushScope :: "NodeScope \<Rightarrow> 'w Tree \<Rightarrow> 'w Tree" where
  "pushScope scope tree = tree\<lparr>m_scopeStack := scope # m_scopeStack tree\<rparr>"

definition popScope :: "'w Tree \<Rightarrow> fault + 'w Tree" where
  "popScope tree =
     (case m_scopeStack tree of
        [] \<Rightarrow> Inl EmptyStackPop
      | frame # below \<Rightarrow> Inr (tree\<lparr>m_scopeStack := below\<rparr>))"

text \<open>
  \<^verbatim>\<open>Blackboard::getFactRef(factName, result, tree)\<close>. The source returns a
  \<^verbatim>\<open>bool\<close> and writes \<^verbatim>\<open>result\<close>: here \<open>Some (Some r)\<close> is
  \<^verbatim>\<open>true\<close> with \<^verbatim>\<open>result\<close> \<open>r\<close>, and \<open>Some None\<close> is \<^verbatim>\<open>false\<close>. The
  recursion follows the values stored in the scope frame and has no bound, so the function
  is partial: \<open>None\<close> is a call that does not return. The \<^verbatim>\<open>Tree*\<close> may be null.
\<close>

partial_function (option) getFactRef ::
  "Blackboard \<Rightarrow> string \<Rightarrow> 'w Tree option \<Rightarrow> string option option" where
  "getFactRef bb factName tree =
     (if factName = [] then Some None
      else if hd factName = CHR ''#'' then
        (case tree of
           None \<Rightarrow> Some None
         | Some t \<Rightarrow>
             (case getScopedVar t (tl factName) of
                None \<Rightarrow> Some None
              | Some temp \<Rightarrow> getFactRef bb temp tree))
      else if hd factName = CHR ''@'' then
        Option.bind (getFactRef bb (tl factName) tree)
          (\<lambda>r. case r of
                  None \<Rightarrow> Some None
                | Some temp \<Rightarrow> Some (getFact bb temp))
      else Some (Some factName))"

subsection \<open>ScopeNode\<close>

text \<open>
  The loop over \<^verbatim>\<open>m_params\<close> (a \<^verbatim>\<open>std::map\<close>, given here as its pairs in
  iteration order) that fills the local \<^verbatim>\<open>params\<close>: \<open>Some None\<close> is the
  \<^verbatim>\<open>return Status::Invalid\<close> inside the loop, \<open>None\<close> a resolution that does
  not return.
\<close>

fun ScopeNode_resolve ::
  "(string \<times> string) list \<Rightarrow> Blackboard \<Rightarrow> 'w Tree \<Rightarrow> NodeScope \<Rightarrow> NodeScope option option" where
  "ScopeNode_resolve [] bb tree params = Some (Some params)"
| "ScopeNode_resolve (item # items) bb tree params =
     (case getFactRef bb (snd item) (Some tree) of
        None \<Rightarrow> None
      | Some None \<Rightarrow> Some None
      | Some (Some temp) \<Rightarrow> ScopeNode_resolve items bb tree (params(fst item \<mapsto> temp)))"

definition ScopeNode_tick ::
  "(string \<times> string) list \<Rightarrow> 'w Tree NodePtr \<Rightarrow> 'w Tree \<Rightarrow> (fault + Status \<times> 'w Tree) option" where
  "ScopeNode_tick m_params m_child tree =
     (case ScopeNode_resolve m_params (m_blackboard tree) tree Map.empty of
        None \<Rightarrow> None
      | Some None \<Rightarrow> Some (Inr (Invalid, tree))
      | Some (Some params) \<Rightarrow>
          Some (case tick_ptr m_child (pushScope params tree) of
                  Inl e \<Rightarrow> Inl e
                | Inr (result, tree') \<Rightarrow>
                    (case popScope tree' of
                       Inl e \<Rightarrow> Inl e
                     | Inr tree'' \<Rightarrow> Inr (result, tree''))))"

section \<open>Bytecode virtual machine\<close>

text \<open>
  \<^verbatim>\<open>BTVM::Status\<close> of \<^verbatim>\<open>ofxBehaviourTreeVM.h\<close>, a second enumeration with
  the constructor names of the first, prefixed here.
\<close>

datatype BTVM_Status = BTVM_Invalid | BTVM_Success | BTVM_Failure | BTVM_Running | BTVM_Suspended

text \<open>
  \<^verbatim>\<open>m_pc\<close> is an \<^verbatim>\<open>off_t\<close>, taken as 64 bits wide and signed; the model
  has it as an \<open>int\<close> (additions that would leave the 64-bit range are not modelled).
  \<^verbatim>\<open>m_threadStart\<close> is a \<^verbatim>\<open>size_t\<close>, taken as 64 bits wide.
\<close>

record BehaviorTreeVMThread =
  m_pc :: int
  m_threadStart :: "64 word"
  m_current :: BTVM_Status

type_synonym DictBlackboard = "string \<rightharpoonup> string"

definition hasFact :: "DictBlackboard \<Rightarrow> string \<Rightarrow> bool" where
  "hasFact m_board factName = (m_board factName \<noteq> None)"

definition BTVM_removeFact :: "DictBlackboard \<Rightarrow> string \<Rightarrow> DictBlackboard" where
  "BTVM_removeFact m_board factName = m_board(factName := None)"

text \<open>
  \<^verbatim>\<open>bt_runner\<close>: a host callable given the thread and the blackboard by pointer. It
  returns a status and may have changed both, and its own captured state \<open>'w\<close>.
\<close>

type_synonym 'w bt_runner =
  "BehaviorTreeVMThread \<Rightarrow> DictBlackboard \<Rightarrow> 'w
    \<Rightarrow> BTVM_Status \<times> BehaviorTreeVMThread \<times> DictBlackboard \<times> 'w"

text \<open>\<^verbatim>\<open>op_type\<close> is \<^verbatim>\<open>int16_t\<close>: a cell is a 16-bit word, read signed.\<close>

record 'w BehaviorTreeVMProgram =
  m_program :: "16 word list"
  m_leaves :: "'w bt_runner list"
  m_decoratorNodes :: "'w bt_runner list"
  m_stringTable :: "string list"

text \<open>
  \<^verbatim>\<open>BehaviorTreeVM\<close>. Its member \<^verbatim>\<open>m_program\<close>, a shared pointer to the
  program, is the field \<open>m_program_ptr\<close> (the name \<open>m_program\<close> is the program's own
  cell vector). \<open>vm_host\<close> is the state captured by the host callables. A thread is
  addressed by its index in \<^verbatim>\<open>m_threads\<close>.
\<close>

record 'w BehaviorTreeVM =
  blackboard :: DictBlackboard
  m_program_ptr :: "'w BehaviorTreeVMProgram option"
  m_threads :: "BehaviorTreeVMThread list"
  vm_host :: 'w

text \<open>
  \<^verbatim>\<open>v[i]\<close> on a \<^verbatim>\<open>std::vector\<close>. The index is converted to
  \<^verbatim>\<open>size_t\<close>, so a negative one is far beyond any size.
\<close>

definition subscript :: "'a list \<Rightarrow> int \<Rightarrow> fault + 'a" where
  "subscript v i = (if 0 \<le> i \<and> i < int (length v) then Inr (v ! nat i) else Inl IndexOutOfRange)"

text \<open>The opcodes \<^verbatim>\<open>ops::run::opcode\<close> = 0 and its successors.\<close>

definition ops_run :: "16 word" where "ops_run = 0"
definition ops_run_thr :: "16 word" where "ops_run_thr = 1"
definition ops_run_dec :: "16 word" where "ops_run_dec = 2"
definition ops_bra_f :: "16 word" where "ops_bra_f = 3"
definition ops_bra_t :: "16 word" where "ops_bra_t = 4"
definition ops_set_f :: "16 word" where "ops_set_f = 5"
definition ops_set_t :: "16 word" where "ops_set_t = 6"
definition ops_neg :: "16 word" where "ops_neg = 7"
definition ops_chk_fact :: "16 word" where "ops_chk_fact = 8"
definition ops_rm_fact :: "16 word" where "ops_rm_fact = 9"
definition ops_dbg_break :: "16 word" where "ops_dbg_break = 10"
definition ops_log :: "16 word" where "ops_log = 11"

text \<open>
  The body shared by \<^verbatim>\<open>case ops::run::opcode\<close> and
  \<^verbatim>\<open>case ops::run_dec::opcode\<close>: both index \<^verbatim>\<open>m_leaves\<close>.
\<close>

definition eval_run ::
  "'w BehaviorTreeVMProgram \<Rightarrow> BehaviorTreeVMThread \<Rightarrow> DictBlackboard \<Rightarrow> 'w
    \<Rightarrow> fault + BTVM_Status \<times> BehaviorTreeVMThread \<times> DictBlackboard \<times> 'w" where
  "eval_run prog thread bb w =
     (case subscript (m_program prog) (m_pc thread + 1) of
        Inl e \<Rightarrow> Inl e
      | Inr i \<Rightarrow>
          (case subscript (m_leaves prog) (sint i) of
             Inl e \<Rightarrow> Inl e
           | Inr leaf \<Rightarrow>
               (case leaf thread bb w of (r, thread1, bb', w') \<Rightarrow>
                  let thread2 = thread1\<lparr>m_current := r\<rparr> in
                  if m_current thread2 = BTVM_Failure \<or> m_current thread2 = BTVM_Success
                     \<or> m_current thread2 = BTVM_Running
                  then Inr (BTVM_Running, thread2\<lparr>m_pc := m_pc thread2 + 2\<rparr>, bb', w')
                  else Inr (m_current thread2, thread2, bb', w'))))"

text \<open>
  The body shared by the two branches, on the status \<open>taken\<close> that takes the branch.
\<close>

definition eval_branch ::
  "'w BehaviorTreeVMProgram \<Rightarrow> BTVM_Status \<Rightarrow> BehaviorTreeVMThread
    \<Rightarrow> fault + BTVM_Status \<times> BehaviorTreeVMThread" where
  "eval_branch prog taken thread =
     (if m_current thread = taken then
        (case subscript (m_program prog) (m_pc thread + 1) of
           Inl e \<Rightarrow> Inl e
         | Inr off \<Rightarrow> Inr (BTVM_Running, thread\<lparr>m_pc := m_pc thread + sint off\<rparr>))
      else Inr (BTVM_Running, thread\<lparr>m_pc := m_pc thread + 2\<rparr>))"

text \<open>
  The cases of the \<^verbatim>\<open>switch\<close> of \<^verbatim>\<open>BehaviorTreeVMProgram::eval\<close> that touch
  only the stepped thread, the blackboard and the host state: every case but
  \<^verbatim>\<open>run_thr\<close>. \<^verbatim>\<open>chk_fact\<close> and \<^verbatim>\<open>rm_fact\<close> index the string table with
  \<^verbatim>\<open>thread->m_pc + 1\<close>, as the source does.
\<close>

definition eval_case ::
  "'w BehaviorTreeVMProgram \<Rightarrow> 16 word \<Rightarrow> BehaviorTreeVMThread \<Rightarrow> DictBlackboard \<Rightarrow> 'w
    \<Rightarrow> fault + BTVM_Status \<times> BehaviorTreeVMThread \<times> DictBlackboard \<times> 'w" where
  "eval_case prog op thread bb w =
     (if op = ops_run then eval_run prog thread bb w
      else if op = ops_run_dec then eval_run prog thread bb w
      else if op = ops_bra_f then
        (case eval_branch prog BTVM_Failure thread of
           Inl e \<Rightarrow> Inl e | Inr (r, thread') \<Rightarrow> Inr (r, thread', bb, w))
      else if op = ops_bra_t then
        (case eval_branch prog BTVM_Success thread of
           Inl e \<Rightarrow> Inl e | Inr (r, thread') \<Rightarrow> Inr (r, thread', bb, w))
      else if op = ops_set_f then
        Inr (BTVM_Running, thread\<lparr>m_current := BTVM_Failure, m_pc := m_pc thread + 1\<rparr>, bb, w)
      else if op = ops_set_t then
        Inr (BTVM_Running, thread\<lparr>m_current := BTVM_Success, m_pc := m_pc thread + 1\<rparr>, bb, w)
      else if op = ops_neg then
        Inr (BTVM_Running,
             thread\<lparr>m_current :=
                      (if m_current thread = BTVM_Failure then BTVM_Success
                       else if m_current thread = BTVM_Success then BTVM_Failure
                       else m_current thread),
                    m_pc := m_pc thread + 1\<rparr>, bb, w)
      else if op = ops_chk_fact then
        (case subscript (m_stringTable prog) (m_pc thread + 1) of
           Inl e \<Rightarrow> Inl e
         | Inr str \<Rightarrow>
             Inr (BTVM_Running,
                  thread\<lparr>m_current := (if hasFact bb str then BTVM_Success else BTVM_Failure),
                         m_pc := m_pc thread + 2\<rparr>, bb, w))
      else if op = ops_rm_fact then
        (case subscript (m_stringTable prog) (m_pc thread + 1) of
           Inl e \<Rightarrow> Inl e
         | Inr str \<Rightarrow>
             Inr (BTVM_Running,
                  thread\<lparr>m_current := BTVM_Success, m_pc := m_pc thread + 2\<rparr>,
                  BTVM_removeFact bb str, w))
      else Inr (BTVM_Invalid, thread, bb, w))"

text \<open>
  What \<^verbatim>\<open>case ops::run_thr::opcode\<close> does after the recursive call has returned,
  on the thread \<open>tid\<close> and the other thread \<open>k\<close>.
\<close>

definition eval_run_thr_return ::
  "nat \<Rightarrow> nat \<Rightarrow> 'w BehaviorTreeVM \<Rightarrow> fault + BTVM_Status \<times> 'w BehaviorTreeVM" where
  "eval_run_thr_return tid k vm =
     (case subscript (m_threads vm) (int k) of
        Inl e \<Rightarrow> Inl e
      | Inr other_thread \<Rightarrow>
          (case subscript (m_threads vm) (int tid) of
             Inl e \<Rightarrow> Inl e
           | Inr thread \<Rightarrow>
               let thread1 = thread\<lparr>m_current := m_current other_thread\<rparr> in
               if m_current thread1 \<noteq> BTVM_Invalid
               then Inr (BTVM_Running,
                         vm\<lparr>m_threads := (m_threads vm)[tid := thread1\<lparr>m_pc := m_pc thread1 + 2\<rparr>]\<rparr>)
               else Inr (m_current thread1, vm\<lparr>m_threads := (m_threads vm)[tid := thread1]\<rparr>)))"

text \<open>
  \<^verbatim>\<open>BehaviorTreeVMProgram::eval(vm, thread, blackboard)\<close> on the thread \<open>tid\<close> of
  the machine. The first assignment of the source,
  \<^verbatim>\<open>thread->m_current = Status::Invalid\<close>, comes before the \<^verbatim>\<open>switch\<close>.
  \<^verbatim>\<open>run_thr\<close> calls \<^verbatim>\<open>eval\<close> on another thread, which may be at a
  \<^verbatim>\<open>run_thr\<close> itself, with no bound: \<open>None\<close> is a call that does not return.
\<close>

partial_function (option) eval ::
  "'w BehaviorTreeVMProgram \<Rightarrow> nat \<Rightarrow> 'w BehaviorTreeVM
    \<Rightarrow> (fault + BTVM_Status \<times> 'w BehaviorTreeVM) option" where
  "eval prog tid vm0 =
     (case subscript (m_threads vm0) (int tid) of
        Inl e \<Rightarrow> Some (Inl e)
      | Inr thread0 \<Rightarrow>
          let thread = thread0\<lparr>m_current := BTVM_Invalid\<rparr>;
              vm = vm0\<lparr>m_threads := (m_threads vm0)[tid := thread]\<rparr>
          in
          (case subscript (m_program prog) (m_pc thread) of
             Inl e \<Rightarrow> Some (Inl e)
           | Inr op \<Rightarrow>
               if op = ops_run_thr then
                 (case subscript (m_program prog) (m_pc thread + 1) of
                    Inl e \<Rightarrow> Some (Inl e)
                  | Inr k \<Rightarrow>
                      (case subscript (m_threads vm) (sint k) of
                         Inl e \<Rightarrow> Some (Inl e)
                       | Inr other_thread \<Rightarrow>
                           Option.bind (eval prog (nat (sint k)) vm)
                             (\<lambda>r. case r of
                                     Inl e \<Rightarrow> Some (Inl e)
                                   | Inr (ignored, vm1) \<Rightarrow>
                                       Some (eval_run_thr_return tid (nat (sint k)) vm1))))
               else
                 (case eval_case prog op thread (blackboard vm) (vm_host vm) of
                    Inl e \<Rightarrow> Some (Inl e)
                  | Inr (r, thread', bb', w') \<Rightarrow>
                      Some (Inr (r, vm\<lparr>blackboard := bb',
                                       m_threads := (m_threads vm)[tid := thread'],
                                       vm_host := w'\<rparr>)))))"

text \<open>
  \<^verbatim>\<open>BehaviorTreeVMThread::step(vm)\<close>, on the thread \<open>tid\<close>; the
  \<^verbatim>\<open>BehaviorTreeVM*\<close> may be null.
\<close>

definition step ::
  "nat \<Rightarrow> 'w BehaviorTreeVM option \<Rightarrow> (fault + BTVM_Status \<times> 'w BehaviorTreeVM option) option" where
  "step tid vm_ptr =
     (case vm_ptr of
        None \<Rightarrow> Some (Inr (BTVM_Invalid, None))
      | Some vm \<Rightarrow>
          (case m_program_ptr vm of
             None \<Rightarrow> Some (Inl NullPointerDereference)
           | Some prog \<Rightarrow>
               Option.bind (eval prog tid vm)
                 (\<lambda>r. Some (case r of
                               Inl e \<Rightarrow> Inl e
                             | Inr (status, vm') \<Rightarrow> Inr (status, Some vm')))))"

text \<open>
  \<^verbatim>\<open>BehaviorTreeVMThread::reset\<close>. The cast \<^verbatim>\<open>(off_t)m_threadStart\<close>
  reads the 64 bits of the unsigned value as a signed one: a start offset from
  \<open>2^63\<close> on gives a negative \<^verbatim>\<open>m_pc\<close>.
\<close>

definition reset :: "BehaviorTreeVMThread \<Rightarrow> BehaviorTreeVMThread" where
  "reset thread = thread\<lparr>m_pc := sint (m_threadStart thread), m_current := BTVM_Invalid\<rparr>"

section \<open>Utility AI: qualifiers and the selector\<close>

text \<open>
  \<^verbatim>\<open>ofxUtilityAI.h\<close>. A score is a \<^verbatim>\<open>float\<close>; the model leaves the type of
  scores open, \<open>'a\<close> with a zero, an addition and a comparison, and uses nothing else of
  it. The callables \<^verbatim>\<open>condition\<close> and \<^verbatim>\<open>score\<close> read the host state \<open>'w\<close>;
  an \<^verbatim>\<open>Action\<close> changes it.
\<close>

record ('w, 'a) Scorer =
  condition :: "'w \<Rightarrow> bool"
  score :: "'w \<Rightarrow> 'a"

datatype Qualifier_Type =
  DefaultAction | FixedScore | AllOrNothing | SumOfChildren | SumWhileAboveThreshold

record ('w, 'a) Qualifier =
  name :: string
  scorers :: "('w, 'a) Scorer list"
  type :: Qualifier_Type
  threshold :: 'a

type_synonym 'w Action = "'w \<Rightarrow> 'w"

type_synonym ('w, 'a) QualifierActionPair = "('w, 'a) Qualifier \<times> 'w Action"

record ('w, 'a) Selector =
  qualifiers :: "('w, 'a) QualifierActionPair list"
  defaultAction :: "('w, 'a) QualifierActionPair"

text \<open>
  The factory functions \<^verbatim>\<open>Qualifier::FixedScore\<close>,
  \<^verbatim>\<open>Qualifier::SumOfChildren\<close> and \<^verbatim>\<open>Qualifier::DefaultAction\<close>; a
  \<^verbatim>\<open>Selector\<close> is constructed with \<^verbatim>\<open>Qualifier::DefaultAction()\<close> in its
  \<^verbatim>\<open>defaultAction\<close>.
\<close>

definition Qualifier_FixedScore :: "string \<Rightarrow> 'a \<Rightarrow> ('w, 'a) Qualifier" where
  "Qualifier_FixedScore nm thr = \<lparr>name = nm, scorers = [], type = FixedScore, threshold = thr\<rparr>"

definition Qualifier_SumOfChildren ::
  "string \<Rightarrow> ('w, 'a::zero) Scorer list \<Rightarrow> ('w, 'a) Qualifier" where
  "Qualifier_SumOfChildren nm scs =
     \<lparr>name = nm, scorers = scs, type = SumOfChildren, threshold = 0\<rparr>"

definition Qualifier_DefaultAction :: "('w, 'a::zero) Qualifier" where
  "Qualifier_DefaultAction =
     \<lparr>name = ''Default Action'', scorers = [], type = DefaultAction, threshold = 0\<rparr>"

text \<open>The three loops of \<^verbatim>\<open>Qualifier::score\<close>; the last argument is the local \<^verbatim>\<open>sum\<close>, here \<open>acc\<close>.\<close>

fun AllOrNothing_loop :: "('w, 'a::{zero,plus}) Scorer list \<Rightarrow> 'w \<Rightarrow> 'a \<Rightarrow> 'a" where
  "AllOrNothing_loop [] w acc = acc"
| "AllOrNothing_loop (scorer # rest) w acc =
     (if \<not> condition scorer w then 0
      else AllOrNothing_loop rest w (acc + score scorer w))"

fun SumOfChildren_loop :: "('w, 'a::{zero,plus}) Scorer list \<Rightarrow> 'w \<Rightarrow> 'a \<Rightarrow> 'a" where
  "SumOfChildren_loop [] w acc = acc"
| "SumOfChildren_loop (scorer # rest) w acc =
     (if condition scorer w then SumOfChildren_loop rest w (acc + score scorer w)
      else SumOfChildren_loop rest w acc)"

fun SumWhileAboveThreshold_loop ::
  "'a \<Rightarrow> ('w, 'a::{zero,plus,ord}) Scorer list \<Rightarrow> 'w \<Rightarrow> 'a \<Rightarrow> 'a" where
  "SumWhileAboveThreshold_loop thr [] w acc = acc"
| "SumWhileAboveThreshold_loop thr (scorer # rest) w acc =
     (if condition scorer w then
        (let sc = score scorer w in
         if sc < thr then acc
         else SumWhileAboveThreshold_loop thr rest w (acc + sc))
      else SumWhileAboveThreshold_loop thr rest w acc)"

definition Qualifier_score :: "('w, 'a::{zero,plus,ord}) Qualifier \<Rightarrow> 'w \<Rightarrow> 'a" where
  "Qualifier_score q w =
     (case type q of
        DefaultAction \<Rightarrow> threshold q
      | FixedScore \<Rightarrow> threshold q
      | AllOrNothing \<Rightarrow> AllOrNothing_loop (scorers q) w 0
      | SumOfChildren \<Rightarrow> SumOfChildren_loop (scorers q) w 0
      | SumWhileAboveThreshold \<Rightarrow> SumWhileAboveThreshold_loop (threshold q) (scorers q) w 0)"

text \<open>
  The loop of \<^verbatim>\<open>Selector::eval\<close> over \<^verbatim>\<open>qualifiers\<close>, on the locals
  \<^verbatim>\<open>chosen\<close> and \<^verbatim>\<open>currentScore\<close>.
\<close>

fun Selector_loop ::
  "('w, 'a::{zero,plus,ord}) QualifierActionPair list \<Rightarrow> 'w
    \<Rightarrow> ('w, 'a) QualifierActionPair \<Rightarrow> 'a \<Rightarrow> ('w, 'a) QualifierActionPair \<times> 'a" where
  "Selector_loop [] w chosen currentScore = (chosen, currentScore)"
| "Selector_loop (current # rest) w chosen currentScore =
     (let newScore = Qualifier_score (fst current) w in
      if newScore > currentScore then Selector_loop rest w current newScore
      else Selector_loop rest w chosen currentScore)"

definition Selector_eval :: "('w, 'a::{zero,plus,ord}) Selector \<Rightarrow> 'w \<Rightarrow> 'w" where
  "Selector_eval sel w =
     (case Selector_loop (qualifiers sel) w (defaultAction sel)
             (threshold (fst (defaultAction sel))) of
        (chosen, currentScore) \<Rightarrow> snd chosen w)"

subsection \<open>Ticking children one after the other\<close>

text \<open>
  What the claims call "child i's outcome" is the outcome of child i when it is ticked
  after the children before it. \<open>tick_each cs s\<close> ticks every child of \<open>cs\<close> once, in
  order, from \<open>s\<close>: it gives the outcomes and the state after the last tick. A node that
  returns the state \<open>snd (tick_each cs s)\<close> has done to the state what ticking exactly
  the children \<open>cs\<close> does, and nothing else.
\<close>

fun tick_each :: "'s NodeTick list \<Rightarrow> 's \<Rightarrow> Status list \<times> 's" where
  "tick_each [] s = ([], s)"
| "tick_each (c # cs) s =
     (case c s of (r, s') \<Rightarrow> case tick_each cs s' of (rs, s'') \<Rightarrow> (r # rs, s''))"

text \<open>A child that returns a fixed outcome and appends its label to a log of ticks.\<close>

definition logged :: "nat \<Rightarrow> Status \<Rightarrow> nat list NodeTick" where
  "logged k r = (\<lambda>log. (r, log @ [k]))"

text \<open>
  A child whose outcome depends on how often it has been called: the state is the number
  of calls so far, and the outcomes repeat cyclically.
\<close>

definition cyclic_child :: "Status list \<Rightarrow> nat NodeTick" where
  "cyclic_child outcomes = (\<lambda>calls. (outcomes ! (calls mod length outcomes), Suc calls))"

text \<open>
  A logging child that returns \<open>Running\<close> at its first tick and \<open>Success\<close> at every
  later one.
\<close>

definition running_once :: "nat \<Rightarrow> nat list NodeTick" where
  "running_once k = (\<lambda>log. (if k \<in> set log then Success else Running, log @ [k]))"

text \<open>
  Three strategies whose conditions and actions log their ticks: a condition that returns
  \<open>Failure\<close>; a condition that returns \<open>Success\<close> with an action that returns
  \<open>Running\<close> at its first tick and \<open>Success\<close> afterwards; a condition that returns
  \<open>Success\<close> with an action that returns \<open>Success\<close>.
\<close>

definition example_latched :: "nat list StrategyNode" where
  "example_latched = \<lparr>m_condition = Some (logged 20 Success), m_action = Some (running_once 21)\<rparr>"

definition example_strategies :: "nat list StrategyNode option list" where
  "example_strategies =
     [Some \<lparr>m_condition = Some (logged 10 Failure), m_action = Some (logged 11 Success)\<rparr>,
      Some example_latched,
      Some \<lparr>m_condition = Some (logged 30 Success), m_action = Some (logged 31 Success)\<rparr>]"

text \<open>
  A child that returns a fixed outcome and appends to the host log the value it sees for
  the scope variable \<open>key\<close>; and a tree with one fact, no scope frame and an empty log.
\<close>

definition scope_probe :: "string \<Rightarrow> Status \<Rightarrow> string option list Tree NodeTick" where
  "scope_probe key r = (\<lambda>tree. (r, tree\<lparr>host := host tree @ [getScopedVar tree key]\<rparr>))"

definition example_tree :: "string option list Tree" where
  "example_tree = \<lparr>m_blackboard = [''hp'' \<mapsto> ''10''], m_scopeStack = [], host = []\<rparr>"

text \<open>
  A leaf callable of the virtual machine that returns a fixed status and appends its label
  to the host log; a program \<^verbatim>\<open>run(0); bra_f(+4); run(1)\<close> over two such leaves,
  the first returning \<^verbatim>\<open>Failure\<close>; and a machine with one thread on that program, given
  by the thread's \<^verbatim>\<open>m_pc\<close> and \<^verbatim>\<open>m_current\<close> and by the log.
\<close>

definition leaf_logged :: "nat \<Rightarrow> BTVM_Status \<Rightarrow> nat list bt_runner" where
  "leaf_logged k r = (\<lambda>thread bb log. (r, thread, bb, log @ [k]))"

definition example_program :: "nat list BehaviorTreeVMProgram" where
  "example_program =
     \<lparr>m_program = [ops_run, 0, ops_bra_f, 4, ops_run, 1],
      m_leaves = [leaf_logged 0 BTVM_Failure, leaf_logged 1 BTVM_Success],
      m_decoratorNodes = [],
      m_stringTable = []\<rparr>"

definition example_vm :: "int \<Rightarrow> BTVM_Status \<Rightarrow> nat list \<Rightarrow> nat list BehaviorTreeVM" where
  "example_vm pc current log =
     \<lparr>blackboard = Map.empty,
      m_program_ptr = Some example_program,
      m_threads = [\<lparr>m_pc = pc, m_threadStart = 0, m_current = current\<rparr>],
      vm_host = log\<rparr>"

text \<open>
  An action that appends its label to the host log, and two selectors over integer
  scores: one whose qualifiers score 5, 7 (a sum of the scorers whose condition holds on
  the empty log, 4 + 3) and 7; one whose qualifiers score 0 and \<open>-2\<close>.
\<close>

definition log_action :: "nat \<Rightarrow> nat list Action" where
  "log_action k = (\<lambda>log. log @ [k])"

definition example_selector :: "(nat list, int) Selector" where
  "example_selector =
     \<lparr>qualifiers =
        [(Qualifier_FixedScore ''a'' 5, log_action 1),
         (Qualifier_SumOfChildren ''b''
            [\<lparr>condition = (\<lambda>log. True), score = (\<lambda>log. 4)\<rparr>,
             \<lparr>condition = (\<lambda>log. log \<noteq> []), score = (\<lambda>log. 100)\<rparr>,
             \<lparr>condition = (\<lambda>log. log = []), score = (\<lambda>log. 3)\<rparr>], log_action 2),
         (Qualifier_FixedScore ''c'' 7, log_action 3)],
      defaultAction = (Qualifier_DefaultAction, log_action 0)\<rparr>"

definition example_selector_low :: "(nat list, int) Selector" where
  "example_selector_low =
     \<lparr>qualifiers =
        [(Qualifier_FixedScore ''a'' 0, log_action 1),
         (Qualifier_FixedScore ''b'' (- 2), log_action 2)],
      defaultAction = (Qualifier_DefaultAction, log_action 0)\<rparr>"

section \<open>Properties of the composite nodes\<close>

lemma tick_each_length: "tick_each cs s = (rs, s') \<Longrightarrow> length rs = length cs"
  by (induction cs arbitrary: s rs) (auto split: prod.splits)

lemma SequenceNode_loop_all_success:
  "tick_each cs s = (rs, s') \<Longrightarrow> \<forall>j < length cs. rs ! j = Success
    \<Longrightarrow> SequenceNode_loop (map Some cs) s = (Success, s')"
proof (induction cs arbitrary: s rs s')
  case Nil
  then show ?case by simp
next
  case (Cons c cs)
  obtain r s1 where c: "c s = (r, s1)" by (cases "c s")
  obtain rs1 s2 where t: "tick_each cs s1 = (rs1, s2)" by (cases "tick_each cs s1")
  from Cons.prems(1) c t have rs: "rs = r # rs1" and s': "s' = s2" by auto
  from Cons.prems(2) rs have r: "r = Success" by auto
  have "\<forall>j < length cs. rs1 ! j = Success"
    using Cons.prems(2) rs by auto
  with Cons.IH [OF t] have "SequenceNode_loop (map Some cs) s1 = (Success, s2)" by simp
  with c r s' show ?case by simp
qed

lemma SequenceNode_loop_first_other:
  "tick_each cs s = (rs, s') \<Longrightarrow> length cs = Suc i \<Longrightarrow> \<forall>j < i. rs ! j = Success
    \<Longrightarrow> rs ! i \<noteq> Success
    \<Longrightarrow> SequenceNode_loop (map Some cs @ rest) s = (rs ! i, s')"
proof (induction cs arbitrary: s rs i s')
  case Nil
  then show ?case by simp
next
  case (Cons c cs)
  obtain r s1 where c: "c s = (r, s1)" by (cases "c s")
  obtain rs1 s2 where t: "tick_each cs s1 = (rs1, s2)" by (cases "tick_each cs s1")
  from Cons.prems(1) c t have rs: "rs = r # rs1" and s': "s' = s2" by auto
  show ?case
  proof (cases i)
    case 0
    with Cons.prems(2) have "cs = []" by simp
    with t have "s2 = s1" by simp
    with 0 Cons.prems(4) rs c s' show ?thesis by simp
  next
    case (Suc k)
    with Cons.prems(3) rs have r: "r = Success" by auto
    have len: "length cs = Suc k" using Cons.prems(2) Suc by simp
    have pre: "\<forall>j < k. rs1 ! j = Success" using Cons.prems(3) rs Suc by auto
    have last: "rs1 ! k \<noteq> Success" using Cons.prems(4) rs Suc by simp
    from Cons.IH [OF t len pre last]
    have "SequenceNode_loop (map Some cs @ rest) s1 = (rs1 ! k, s2)" .
    with c r rs s' Suc show ?thesis by simp
  qed
qed

text \<open>
  Claim C1. A Sequence whose children \<open>cs\<close> (all present, at least one) all return
  \<open>Success\<close>, each ticked after the ones before it, returns \<open>Success\<close>, in the state
  left by the last child. A Sequence whose children \<open>0..i\<close> are \<open>cs\<close>, where the
  children before \<open>i\<close> return \<open>Success\<close> and child \<open>i\<close> returns another outcome,
  returns exactly that outcome, in the state left by child \<open>i\<close>: whatever the children
  \<open>rest\<close> after \<open>i\<close> are, none of them is ticked.
\<close>

theorem SequenceNode_tick_spec:
  assumes "tick_each cs s = (rs, s')" and "length cs = Suc i"
  shows "((\<forall>j \<le> i. rs ! j = Success) \<longrightarrow> SequenceNode_tick (map Some cs) s = (Success, s')) \<and>
         ((\<forall>j < i. rs ! j = Success) \<and> rs ! i \<noteq> Success
            \<longrightarrow> SequenceNode_tick (map Some cs @ rest) s = (rs ! i, s'))"
proof -
  from assms(2) have ne: "cs \<noteq> []" by auto
  have a: "SequenceNode_tick (map Some cs) s = (Success, s')" if "\<forall>j \<le> i. rs ! j = Success"
  proof -
    from that assms(2) have "\<forall>j < length cs. rs ! j = Success" by simp
    from SequenceNode_loop_all_success [OF assms(1) this] ne
    show ?thesis by (simp add: SequenceNode_tick_def)
  qed
  have b: "SequenceNode_tick (map Some cs @ rest) s = (rs ! i, s')"
    if "\<forall>j < i. rs ! j = Success" and "rs ! i \<noteq> Success"
    using SequenceNode_loop_first_other [OF assms(1) assms(2) that] ne
    by (simp add: SequenceNode_tick_def)
  from a b show ?thesis by blast
qed

text \<open>
  The theorem at two Sequences over children that log their ticks: two succeeding
  children, and a failing second child followed by a third child and an absent one.
\<close>

theorem SequenceNode_tick_spec_witness:
  "SequenceNode_tick [Some (logged 0 Success), Some (logged 1 Success)] [] = (Success, [0, 1]) \<and>
   SequenceNode_tick
     [Some (logged 0 Success), Some (logged 1 Failure), Some (logged 2 Success), None] []
     = (Failure, [0, 1])"
proof -
  have t1: "tick_each [logged 0 Success, logged 1 Success] [] = ([Success, Success], [0, 1])"
    by (simp add: logged_def)
  have t2: "tick_each [logged 0 Success, logged 1 Failure] [] = ([Success, Failure], [0, 1])"
    by (simp add: logged_def)
  have l: "length [logged 0 Success, logged 1 Success] = Suc 1"
    "length [logged 0 Success, logged 1 Failure] = Suc 1" by simp_all
  from SequenceNode_tick_spec [OF t1 l(1)]
  have a: "SequenceNode_tick [Some (logged 0 Success), Some (logged 1 Success)] []
             = (Success, [0, 1])"
    by (simp add: less_Suc_eq le_Suc_eq)
  from SequenceNode_tick_spec [OF t2 l(2), of "[Some (logged 2 Success), None]"]
  have b: "SequenceNode_tick
             [Some (logged 0 Success), Some (logged 1 Failure), Some (logged 2 Success), None] []
             = (Failure, [0, 1])"
    by simp
  from a b show ?thesis by simp
qed

text \<open>
  The Selector is the loop of the Sequence with \<open>Failure\<close> as the outcome that lets it
  go on: the first outcome that is not \<open>Failure\<close> is returned and no later child is
  ticked; after children that all return \<open>Failure\<close> the loop is left with its final value.
\<close>

lemma SelectorNode_loop_all_failure:
  "tick_each cs s = (rs, s') \<Longrightarrow> \<forall>j < length cs. rs ! j = Failure
    \<Longrightarrow> SelectorNode_loop (map Some cs @ rest) s = SelectorNode_loop rest s'"
proof (induction cs arbitrary: s rs s')
  case Nil
  then show ?case by simp
next
  case (Cons c cs)
  obtain r s1 where c: "c s = (r, s1)" by (cases "c s")
  obtain rs1 s2 where t: "tick_each cs s1 = (rs1, s2)" by (cases "tick_each cs s1")
  from Cons.prems(1) c t have rs: "rs = r # rs1" and s': "s' = s2" by auto
  from Cons.prems(2) rs have r: "r = Failure" by auto
  have "\<forall>j < length cs. rs1 ! j = Failure"
    using Cons.prems(2) rs by auto
  with Cons.IH [OF t] have "SelectorNode_loop (map Some cs @ rest) s1 = SelectorNode_loop rest s2"
    by simp
  with c r s' show ?case by simp
qed

lemma SelectorNode_loop_first_other:
  "tick_each cs s = (rs, s') \<Longrightarrow> length cs = Suc i \<Longrightarrow> \<forall>j < i. rs ! j = Failure
    \<Longrightarrow> rs ! i \<noteq> Failure
    \<Longrightarrow> SelectorNode_loop (map Some cs @ rest) s = (rs ! i, s')"
proof (induction cs arbitrary: s rs i s')
  case Nil
  then show ?case by simp
next
  case (Cons c cs)
  obtain r s1 where c: "c s = (r, s1)" by (cases "c s")
  obtain rs1 s2 where t: "tick_each cs s1 = (rs1, s2)" by (cases "tick_each cs s1")
  from Cons.prems(1) c t have rs: "rs = r # rs1" and s': "s' = s2" by auto
  show ?case
  proof (cases i)
    case 0
    with Cons.prems(2) have "cs = []" by simp
    with t have "s2 = s1" by simp
    with 0 Cons.prems(4) rs c s' show ?thesis by simp
  next
    case (Suc k)
    with Cons.prems(3) rs have r: "r = Failure" by auto
    have len: "length cs = Suc k" using Cons.prems(2) Suc by simp
    have pre: "\<forall>j < k. rs1 ! j = Failure" using Cons.prems(3) rs Suc by auto
    have last: "rs1 ! k \<noteq> Failure" using Cons.prems(4) rs Suc by simp
    from Cons.IH [OF t len pre last]
    have "SelectorNode_loop (map Some cs @ rest) s1 = (rs1 ! k, s2)" .
    with c r rs s' Suc show ?thesis by simp
  qed
qed

lemma SelectorNode_tick_first_other:
  assumes "tick_each cs s = (rs, s')" and "length cs = Suc i"
    and "\<forall>j < i. rs ! j = Failure" and "rs ! i \<noteq> Failure"
  shows "SelectorNode_tick (map Some cs @ rest) s = (rs ! i, s')"
proof -
  from assms(2) have "cs \<noteq> []" by auto
  with SelectorNode_loop_first_other [OF assms] show ?thesis
    by (simp add: SelectorNode_tick_def)
qed

lemma SelectorNode_tick_all_failure_Success:
  assumes "tick_each cs s = (rs, s')" and "cs \<noteq> []" and "\<forall>j < length cs. rs ! j = Failure"
  shows "SelectorNode_tick (map Some cs) s = (Success, s')"
  using SelectorNode_loop_all_failure [OF assms(1) assms(3), of "[]"] assms(2)
  by (simp add: SelectorNode_tick_def)

text \<open>
  Claim C2. The claim has a Selector whose children all return \<open>Failure\<close> return
  \<open>Failure\<close>. \<^verbatim>\<open>SelectorNode::tick\<close> ends in \<^verbatim>\<open>return Status::Success\<close>:
  a Selector over two failing children ticks both and returns \<open>Success\<close>.
\<close>

theorem SelectorNode_tick_all_failure:
  "SelectorNode_tick [Some (logged 0 Failure), Some (logged 1 Failure)] [] = (Success, [0, 1])"
  by (simp add: SelectorNode_tick_def logged_def)

text \<open>
  Claim C3. The claim has a Parallel with success threshold 2 over children returning
  \<open>Success\<close>, \<open>Success\<close>, \<open>Failure\<close> tick every child and return \<open>Success\<close>.
  \<^verbatim>\<open>ParallelNode::tick\<close> returns \<open>Invalid\<close> and ticks no child: the log stays empty.
\<close>

theorem ParallelNode_tick_stub:
  "ParallelNode_tick 2
     [Some (logged 0 Success), Some (logged 1 Success), Some (logged 2 Failure)] []
     = (Invalid, [])"
  by (simp add: ParallelNode_tick_def)

text \<open>
  All four composites return \<open>Invalid\<close> on an empty child list, and the Sequence and the
  Selector return \<open>Invalid\<close> at an absent child that they reach.
\<close>

lemma composite_tick_empty:
  "SequenceNode_tick [] s = (Invalid, s)"
  "SelectorNode_tick [] s = (Invalid, s)"
  "RepeatWhileSuccessfulNode_tick [] s = Inr (Invalid, s)"
  "RepeatWhileFailureNode_tick [] s = Inr (Invalid, s)"
  by (simp_all add: SequenceNode_tick_def SelectorNode_tick_def
      RepeatWhileSuccessfulNode_tick_def RepeatWhileFailureNode_tick_def)

lemma SequenceNode_loop_prefix_success:
  "tick_each cs s = (rs, s') \<Longrightarrow> \<forall>j < length cs. rs ! j = Success
    \<Longrightarrow> SequenceNode_loop (map Some cs @ rest) s = SequenceNode_loop rest s'"
proof (induction cs arbitrary: s rs s')
  case Nil
  then show ?case by simp
next
  case (Cons c cs)
  obtain r s1 where c: "c s = (r, s1)" by (cases "c s")
  obtain rs1 s2 where t: "tick_each cs s1 = (rs1, s2)" by (cases "tick_each cs s1")
  from Cons.prems(1) c t have rs: "rs = r # rs1" and s': "s' = s2" by auto
  from Cons.prems(2) rs have r: "r = Success" by auto
  have "\<forall>j < length cs. rs1 ! j = Success"
    using Cons.prems(2) rs by auto
  with Cons.IH [OF t] have "SequenceNode_loop (map Some cs @ rest) s1 = SequenceNode_loop rest s2"
    by simp
  with c r s' show ?case by simp
qed

lemma SequenceNode_tick_absent_child:
  assumes "tick_each cs s = (rs, s')" and "\<forall>j < length cs. rs ! j = Success"
  shows "SequenceNode_tick (map Some cs @ None # rest) s = (Invalid, s')"
  using SequenceNode_loop_prefix_success [OF assms, of "None # rest"]
  by (simp add: SequenceNode_tick_def)

lemma SelectorNode_tick_absent_child:
  assumes "tick_each cs s = (rs, s')" and "\<forall>j < length cs. rs ! j = Failure"
  shows "SelectorNode_tick (map Some cs @ None # rest) s = (Invalid, s')"
  using SelectorNode_loop_all_failure [OF assms, of "None # rest"]
  by (simp add: SelectorNode_tick_def)

text \<open>
  Claim C7. The claim has every composite return \<open>Invalid\<close> at an absent child.
  \<^verbatim>\<open>SequenceNode\<close> and \<^verbatim>\<open>SelectorNode\<close> test the pointer;
  \<^verbatim>\<open>RepeatWhileSuccessfulNode\<close> and \<^verbatim>\<open>RepeatWhileFailureNode\<close> do not, and
  dereference the absent child, as the only child or after a first child that lets the
  loop go on.
\<close>

theorem RepeatWhile_tick_absent_child:
  "RepeatWhileSuccessfulNode_tick [None] ([]::nat list) = Inl NullPointerDereference \<and>
   RepeatWhileFailureNode_tick [None] ([]::nat list) = Inl NullPointerDereference \<and>
   RepeatWhileSuccessfulNode_tick [Some (logged 0 Success), None] []
     = Inl NullPointerDereference \<and>
   RepeatWhileFailureNode_tick [Some (logged 0 Failure), None] []
     = Inl NullPointerDereference"
  by (simp add: RepeatWhileSuccessfulNode_tick_def RepeatWhileFailureNode_tick_def logged_def)

section \<open>Properties of the Repeat decorator\<close>

lemma RepeatDecoratorNode_loop_stop:
  "tick_each (replicate (Suc k) child) s = (rs, s')
    \<Longrightarrow> \<forall>j < k. rs ! j \<noteq> Running \<and> rs ! j \<noteq> Invalid
    \<Longrightarrow> rs ! k = Running \<or> rs ! k = Invalid \<Longrightarrow> k < n
    \<Longrightarrow> RepeatDecoratorNode_loop n child status s = (rs ! k, s')"
proof (induction k arbitrary: s rs n status s')
  case 0
  obtain m where n: "n = Suc m" using "0.prems"(4) by (cases n) auto
  obtain r s1 where c: "child s = (r, s1)" by (cases "child s")
  with "0.prems"(1) have "rs = [r]" "s' = s1" by auto
  with "0.prems"(3) c n show ?case by auto
next
  case (Suc k)
  obtain m where n: "n = Suc m" and km: "k < m" using Suc.prems(4) by (cases n) auto
  obtain r s1 where c: "child s = (r, s1)" by (cases "child s")
  obtain rs1 s2 where t: "tick_each (replicate (Suc k) child) s1 = (rs1, s2)"
    by (cases "tick_each (replicate (Suc k) child) s1")
  from Suc.prems(1) c t have rs: "rs = r # rs1" and s': "s' = s2" by auto
  from Suc.prems(2) rs have r: "r \<noteq> Running \<and> r \<noteq> Invalid" by auto
  have pre: "\<forall>j < k. rs1 ! j \<noteq> Running \<and> rs1 ! j \<noteq> Invalid"
    using Suc.prems(2) rs by auto
  have stop: "rs1 ! k = Running \<or> rs1 ! k = Invalid" using Suc.prems(3) rs by simp
  from Suc.IH [OF t pre stop km]
  have "RepeatDecoratorNode_loop m child r s1 = (rs1 ! k, s2)" .
  with c r n rs s' show ?case by simp
qed

lemma RepeatDecoratorNode_loop_full:
  "tick_each (replicate n child) s = (rs, s')
    \<Longrightarrow> \<forall>j < n. rs ! j \<noteq> Running \<and> rs ! j \<noteq> Invalid
    \<Longrightarrow> RepeatDecoratorNode_loop n child status s = (if n = 0 then status else rs ! (n - 1), s')"
proof (induction n arbitrary: s rs status s')
  case 0
  then show ?case by simp
next
  case (Suc n)
  obtain r s1 where c: "child s = (r, s1)" by (cases "child s")
  obtain rs1 s2 where t: "tick_each (replicate n child) s1 = (rs1, s2)"
    by (cases "tick_each (replicate n child) s1")
  from Suc.prems(1) c t have rs: "rs = r # rs1" and s': "s' = s2" by auto
  from Suc.prems(2) rs have r: "r \<noteq> Running \<and> r \<noteq> Invalid" by auto
  have pre: "\<forall>j < n. rs1 ! j \<noteq> Running \<and> rs1 ! j \<noteq> Invalid"
    using Suc.prems(2) rs by auto
  from Suc.IH [OF t pre]
  have "RepeatDecoratorNode_loop n child r s1 = (if n = 0 then r else rs1 ! (n - 1), s2)" .
  with c r rs s' show ?case by (cases n) auto
qed

text \<open>
  Claim C9. A Repeat with count \<open>n \<ge> 1\<close> over a present child: if the first tick of
  the child to return \<open>Running\<close> or \<open>Invalid\<close> is tick number \<open>k + 1 \<le> n\<close>, the
  Repeat returns that outcome in the state left by \<open>k + 1\<close> ticks of the child; if none
  of \<open>n\<close> successive ticks returns \<open>Running\<close> or \<open>Invalid\<close>, it returns the outcome of
  the \<open>n\<close>-th tick in the state left by \<open>n\<close> ticks. Either way the child is ticked at most
  \<open>n\<close> times.
\<close>

theorem RepeatDecoratorNode_tick_spec:
  assumes "0 < n"
  shows "(k < n \<and> tick_each (replicate (Suc k) child) s = (rs, s')
            \<and> (\<forall>j < k. rs ! j \<noteq> Running \<and> rs ! j \<noteq> Invalid)
            \<and> (rs ! k = Running \<or> rs ! k = Invalid)
          \<longrightarrow> RepeatDecoratorNode_tick n (Some child) s = (rs ! k, s')) \<and>
         (tick_each (replicate n child) s = (rs, s')
            \<and> (\<forall>j < n. rs ! j \<noteq> Running \<and> rs ! j \<noteq> Invalid)
          \<longrightarrow> RepeatDecoratorNode_tick n (Some child) s = (rs ! (n - 1), s'))"
proof -
  have a: "RepeatDecoratorNode_tick n (Some child) s = (rs ! k, s')"
    if "k < n" "tick_each (replicate (Suc k) child) s = (rs, s')"
      "\<forall>j < k. rs ! j \<noteq> Running \<and> rs ! j \<noteq> Invalid" "rs ! k = Running \<or> rs ! k = Invalid"
    using RepeatDecoratorNode_loop_stop [OF that(2) that(3) that(4) that(1)]
    by (simp add: RepeatDecoratorNode_tick_def)
  have b: "RepeatDecoratorNode_tick n (Some child) s = (rs ! (n - 1), s')"
    if "tick_each (replicate n child) s = (rs, s')"
      "\<forall>j < n. rs ! j \<noteq> Running \<and> rs ! j \<noteq> Invalid"
    using RepeatDecoratorNode_loop_full [OF that] assms
    by (simp add: RepeatDecoratorNode_tick_def)
  from a b show ?thesis by blast
qed

text \<open>
  The theorem at Repeat(3) over a child that counts its calls: with the outcomes
  \<open>Success\<close>, \<open>Success\<close>, \<open>Failure\<close> on successive calls it is called 3 times and the
  Repeat returns \<open>Failure\<close>; with \<open>Running\<close> at the second call, it is called twice.
\<close>

theorem RepeatDecoratorNode_tick_spec_witness:
  "RepeatDecoratorNode_tick 3 (Some (cyclic_child [Success, Success, Failure])) 0 = (Failure, 3) \<and>
   RepeatDecoratorNode_tick 3 (Some (cyclic_child [Success, Running, Failure])) 0 = (Running, 2)"
proof -
  have n: "0 < (3::nat)" by simp
  have cyc3: "tick_each (replicate 3 (cyclic_child [Success, Success, Failure])) 0
          = ([Success, Success, Failure], 3)"
    by code_simp
  have cyc2: "tick_each (replicate (Suc 1) (cyclic_child [Success, Running, Failure])) 0
          = ([Success, Running], 2)"
    by code_simp
  have ok3: "\<forall>j < (3::nat). [Success, Success, Failure] ! j \<noteq> Running
               \<and> [Success, Success, Failure] ! j \<noteq> Invalid"
    by (simp add: less_Suc_eq numeral_3_eq_3)
  have ok2: "\<forall>j < (1::nat). [Success, Running] ! j \<noteq> Running \<and> [Success, Running] ! j \<noteq> Invalid"
    by simp
  from RepeatDecoratorNode_tick_spec [OF n,
      where child = "cyclic_child [Success, Success, Failure]" and s = 0
        and rs = "[Success, Success, Failure]" and s' = 3] cyc3 ok3
  have a: "RepeatDecoratorNode_tick 3 (Some (cyclic_child [Success, Success, Failure])) 0
             = ([Success, Success, Failure] ! (3 - 1), 3)"
    by blast
  from RepeatDecoratorNode_tick_spec [OF n,
      where child = "cyclic_child [Success, Running, Failure]" and s = 0
        and rs = "[Success, Running]" and s' = 2 and k = 1] cyc2 ok2
  have b: "RepeatDecoratorNode_tick 3 (Some (cyclic_child [Success, Running, Failure])) 0
             = ([Success, Running] ! 1, 2)"
    by simp
  from a b show ?thesis by simp
qed

section \<open>Properties of the Decision node\<close>

text \<open>
  The body of the tick, from a node whose \<^verbatim>\<open>m_current\<close> has a value. Over three
  strategies, the first with a condition that returns \<open>Failure\<close>, the second with a
  condition that returns \<open>Success\<close> and an action that returns \<open>Running\<close>: ticked with
  \<^verbatim>\<open>m_current\<close> null, the node returns \<open>Running\<close> and latches the second
  strategy. Ticked with the second strategy latched, it ticks that strategy's action and
  nothing else (the first strategy's action and the whole third strategy may be anything,
  even absent), returns the action's outcome, and keeps the latch exactly when that
  outcome is \<open>Running\<close>.
\<close>

lemma DecisionNode_tick_from_value:
  assumes "latched = \<lparr>m_condition = Some cond_b, m_action = Some act_b\<rparr>"
    and "m_strategies = [Some \<lparr>m_condition = Some cond_a, m_action = act_a\<rparr>, Some latched, third]"
  shows "(cond_a s = (Failure, sa) \<and> cond_b sa = (Success, sb) \<and> act_b sb = (Running, sc)
            \<longrightarrow> DecisionNode_tick (m_strategies, NullPtr) s
                  = Inr (Running, (m_strategies, PointsTo latched), sc)) \<and>
         (act_b t = (r, t')
            \<longrightarrow> DecisionNode_tick (m_strategies, PointsTo latched) t
                  = Inr (r, (m_strategies, if r = Running then PointsTo latched else NullPtr), t'))"
  using assms by (auto simp add: DecisionNode_tick_def tick_ptr_def)

text \<open>
  A node as the constructor leaves it has no value in \<^verbatim>\<open>m_current\<close>: its tick
  reads an indeterminate pointer, whatever the strategies and the state are.
\<close>

lemma DecisionNode_ctor_tick:
  "DecisionNode_tick (DecisionNode_ctor strategies) s = Inl IndeterminateValueRead"
  by (simp add: DecisionNode_tick_def DecisionNode_ctor_def)

text \<open>
  Claim C4. The claim has the first tick of a Decision node over the strategies (condition
  returning \<open>Failure\<close>, action), (condition returning \<open>Success\<close>, action returning
  \<open>Running\<close>), (condition returning \<open>Success\<close>, action) return \<open>Running\<close> and latch
  the second strategy. The first tick of the node that the constructor builds over three
  such strategies, whose nodes log their ticks, reads the \<^verbatim>\<open>m_current\<close> that the
  constructor left without a value: it is undefined behaviour, not a tick that returns
  \<open>Running\<close>. The same strategies ticked from a null \<^verbatim>\<open>m_current\<close> do what the
  claim says: \<open>Running\<close> with the second strategy latched, after the first condition and
  the second condition and action; then \<open>Success\<close> with the latch cleared, after the second
  action alone.
\<close>

theorem DecisionNode_first_tick_indeterminate:
  "DecisionNode_tick (DecisionNode_ctor example_strategies) [] = Inl IndeterminateValueRead \<and>
   DecisionNode_tick (example_strategies, NullPtr) []
     = Inr (Running, (example_strategies, PointsTo example_latched), [10, 20, 21]) \<and>
   DecisionNode_tick (example_strategies, PointsTo example_latched) [10, 20, 21]
     = Inr (Success, (example_strategies, NullPtr), [10, 20, 21, 21])"
  by (simp add: DecisionNode_tick_def DecisionNode_ctor_def tick_ptr_def logged_def
      running_once_def example_strategies_def example_latched_def)

section \<open>Properties of reference resolution\<close>

lemma getFactRef_literal:
  "factName \<noteq> [] \<Longrightarrow> hd factName \<noteq> CHR ''#'' \<Longrightarrow> hd factName \<noteq> CHR ''@''
    \<Longrightarrow> getFactRef bb factName tree = Some (Some factName)"
  by (subst getFactRef.simps) simp

lemma getFactRef_scope_miss:
  "getScopedVar t key = None \<Longrightarrow> getFactRef bb (CHR ''#'' # key) (Some t) = Some None"
  by (subst getFactRef.simps) simp

lemma getFactRef_scope_hit:
  "getScopedVar t key = Some temp
    \<Longrightarrow> getFactRef bb (CHR ''#'' # key) (Some t) = getFactRef bb temp (Some t)"
  by (subst getFactRef.simps) simp

lemma getFactRef_indirect:
  "getFactRef bb (CHR ''@'' # rest) tree =
     Option.bind (getFactRef bb rest tree)
       (\<lambda>r. case r of None \<Rightarrow> Some None | Some temp \<Rightarrow> Some (getFact bb temp))"
  by (subst getFactRef.simps) simp

text \<open>
  Claim C5. Resolving a token that starts with \<open>@\<close> resolves the rest of the token,
  fails if that fails, and otherwise looks the name obtained up in the fact store, once and
  as it is; it does not return if resolving the rest does not. The token \<open>@#x\<close>, with
  \<open>x\<close> bound to \<open>y\<close> in the top scope frame and the fact \<open>y\<close> holding \<open>z\<close>, resolves
  to \<open>z\<close>. With no \<open>x\<close> in the top frame (or no frame at all) it fails, whatever the fact
  store \<open>bb'\<close> is.
\<close>

theorem getFactRef_reference:
  "getFactRef bb (CHR ''@'' # rest) tree =
     (case getFactRef bb rest tree of
        None \<Rightarrow> None
      | Some None \<Rightarrow> Some None
      | Some (Some temp) \<Rightarrow> Some (getFact bb temp)) \<and>
   (m_scopeStack t = frame # below \<and> frame ''x'' = Some ''y'' \<and> getFact bb ''y'' = Some ''z''
      \<longrightarrow> getFactRef bb ''@#x'' (Some t) = Some (Some ''z'')) \<and>
   (getScopedVar t ''x'' = None \<longrightarrow> getFactRef bb' ''@#x'' (Some t) = Some None)"
proof (intro conjI impI)
  show "getFactRef bb (CHR ''@'' # rest) tree =
     (case getFactRef bb rest tree of
        None \<Rightarrow> None
      | Some None \<Rightarrow> Some None
      | Some (Some temp) \<Rightarrow> Some (getFact bb temp))"
    by (simp add: getFactRef_indirect split: option.splits)
next
  assume a: "m_scopeStack t = frame # below \<and> frame ''x'' = Some ''y'' \<and> getFact bb ''y'' = Some ''z''"
  then have "getScopedVar t ''x'' = Some ''y''"
    by (simp add: getScopedVar_def getScopeVar_def)
  then have "getFactRef bb ''#x'' (Some t) = getFactRef bb ''y'' (Some t)"
    by (rule getFactRef_scope_hit)
  also have "\<dots> = Some (Some ''y'')" by (rule getFactRef_literal) simp_all
  finally show "getFactRef bb ''@#x'' (Some t) = Some (Some ''z'')"
    using a by (simp add: getFactRef_indirect)
next
  assume "getScopedVar t ''x'' = None"
  then have "getFactRef bb' ''#x'' (Some t) = Some None" by (rule getFactRef_scope_miss)
  then show "getFactRef bb' ''@#x'' (Some t) = Some None"
    by (simp add: getFactRef_indirect)
qed

text \<open>
  The theorem at the tree with the single frame \<open>{x: y}\<close> and the fact store
  \<open>{y: z}\<close>, and at the tree with an empty scope stack.
\<close>

theorem getFactRef_reference_witness:
  "getFactRef [''y'' \<mapsto> ''z''] ''@#x''
     (Some \<lparr>m_blackboard = [''y'' \<mapsto> ''z''], m_scopeStack = [[''x'' \<mapsto> ''y'']], host = ()\<rparr>)
     = Some (Some ''z'') \<and>
   getFactRef [''y'' \<mapsto> ''z''] ''@#x''
     (Some \<lparr>m_blackboard = [''y'' \<mapsto> ''z''], m_scopeStack = [], host = ()\<rparr>)
     = Some None"
proof -
  have hit: "m_scopeStack \<lparr>m_blackboard = [''y'' \<mapsto> ''z''], m_scopeStack = [[''x'' \<mapsto> ''y'']],
                host = ()\<rparr> = [''x'' \<mapsto> ''y''] # [] \<and>
             [''x'' \<mapsto> ''y''] ''x'' = Some ''y'' \<and>
             getFact [''y'' \<mapsto> ''z''] ''y'' = Some ''z''"
    by (simp add: getFact_def)
  have miss: "getScopedVar \<lparr>m_blackboard = [''y'' \<mapsto> ''z''], m_scopeStack = [], host = ()\<rparr> ''x''
                = None"
    by (simp add: getScopedVar_def)
  from getFactRef_reference [where bb = "[''y'' \<mapsto> ''z'']"
      and t = "\<lparr>m_blackboard = [''y'' \<mapsto> ''z''], m_scopeStack = [[''x'' \<mapsto> ''y'']], host = ()\<rparr>"
      and frame = "[''x'' \<mapsto> ''y'']" and below = "[]"] hit
  have a: "getFactRef [''y'' \<mapsto> ''z''] ''@#x''
     (Some \<lparr>m_blackboard = [''y'' \<mapsto> ''z''], m_scopeStack = [[''x'' \<mapsto> ''y'']], host = ()\<rparr>)
     = Some (Some ''z'')"
    by blast
  from getFactRef_reference [where bb' = "[''y'' \<mapsto> ''z'']"
      and t = "\<lparr>m_blackboard = [''y'' \<mapsto> ''z''], m_scopeStack = [], host = ()\<rparr>"] miss
  have b: "getFactRef [''y'' \<mapsto> ''z''] ''@#x''
     (Some \<lparr>m_blackboard = [''y'' \<mapsto> ''z''], m_scopeStack = [], host = ()\<rparr>)
     = Some None"
    by blast
  from a b show ?thesis by (rule conjI)
qed

section \<open>Properties of the Scope node\<close>

lemma ScopeNode_resolve_fails:
  "(\<forall>p \<in> set pre. getFactRef bb (snd p) (Some tree) \<noteq> None)
    \<Longrightarrow> getFactRef bb (snd item) (Some tree) = Some None
    \<Longrightarrow> ScopeNode_resolve (pre @ item # post) bb tree params = Some None"
proof (induction pre arbitrary: params)
  case Nil
  then show ?case by simp
next
  case (Cons p pre)
  from Cons.prems(1) obtain r where r: "getFactRef bb (snd p) (Some tree) = Some r" by auto
  show ?case
  proof (cases r)
    case None
    with r show ?thesis by simp
  next
    case (Some temp)
    from Cons.prems(1) have "\<forall>q \<in> set pre. getFactRef bb (snd q) (Some tree) \<noteq> None" by simp
    from Cons.IH [OF this Cons.prems(2)] r Some show ?thesis by simp
  qed
qed

lemma ScopeNode_resolve_succeeds:
  "(\<forall>p \<in> set items. \<exists>v. getFactRef bb (snd p) (Some tree) = Some (Some v))
    \<Longrightarrow> \<exists>frame. ScopeNode_resolve items bb tree params = Some (Some frame)"
proof (induction items arbitrary: params)
  case Nil
  then show ?case by simp
next
  case (Cons p items)
  from Cons.prems obtain v where v: "getFactRef bb (snd p) (Some tree) = Some (Some v)" by auto
  from Cons.prems have "\<forall>q \<in> set items. \<exists>v. getFactRef bb (snd q) (Some tree) = Some (Some v)"
    by simp
  from Cons.IH [OF this] v show ?case by simp
qed

text \<open>
  Claim C6. If a configured parameter fails to resolve, and the resolutions of the
  parameters before it return, the Scope tick returns \<open>Invalid\<close> and the tree is as it
  was: no frame has been pushed. If every parameter resolves, the tick pushes one frame,
  ticks the child on the tree with that frame on top, pops one frame from the tree the child
  leaves, and returns the child's outcome, whatever it is; for a child whose own tick leaves
  the scope stack as deep as it found it, the depth after the tick is the depth before it.
\<close>

theorem ScopeNode_tick_scope_depth:
  "(m_params = pre @ item # post
      \<and> (\<forall>p \<in> set pre. getFactRef (m_blackboard tree) (snd p) (Some tree) \<noteq> None)
      \<and> getFactRef (m_blackboard tree) (snd item) (Some tree) = Some None
    \<longrightarrow> ScopeNode_tick m_params m_child tree = Some (Inr (Invalid, tree))) \<and>
   ((\<forall>p \<in> set m_params. \<exists>v. getFactRef (m_blackboard tree) (snd p) (Some tree) = Some (Some v))
      \<and> (\<forall>t. length (m_scopeStack (snd (child t))) = length (m_scopeStack t))
    \<longrightarrow> (\<exists>frame result tree' popped.
          ScopeNode_resolve m_params (m_blackboard tree) tree Map.empty = Some (Some frame)
          \<and> child (pushScope frame tree) = (result, tree')
          \<and> popScope tree' = Inr popped
          \<and> ScopeNode_tick m_params (Some child) tree = Some (Inr (result, popped))
          \<and> length (m_scopeStack popped) = length (m_scopeStack tree)))"
proof (intro conjI impI)
  assume a: "m_params = pre @ item # post
      \<and> (\<forall>p \<in> set pre. getFactRef (m_blackboard tree) (snd p) (Some tree) \<noteq> None)
      \<and> getFactRef (m_blackboard tree) (snd item) (Some tree) = Some None"
  then have "ScopeNode_resolve m_params (m_blackboard tree) tree Map.empty = Some None"
    using ScopeNode_resolve_fails [of pre "m_blackboard tree" tree item post Map.empty] by simp
  then show "ScopeNode_tick m_params m_child tree = Some (Inr (Invalid, tree))"
    by (simp add: ScopeNode_tick_def)
next
  assume a: "(\<forall>p \<in> set m_params. \<exists>v. getFactRef (m_blackboard tree) (snd p) (Some tree) = Some (Some v))
      \<and> (\<forall>t. length (m_scopeStack (snd (child t))) = length (m_scopeStack t))"
  then obtain frame
    where frame: "ScopeNode_resolve m_params (m_blackboard tree) tree Map.empty = Some (Some frame)"
    using ScopeNode_resolve_succeeds [of m_params "m_blackboard tree" tree Map.empty] by blast
  obtain result tree' where c: "child (pushScope frame tree) = (result, tree')"
    by (cases "child (pushScope frame tree)")
  from a have "length (m_scopeStack (snd (child (pushScope frame tree))))
                 = length (m_scopeStack (pushScope frame tree))"
    by blast
  with c have len: "length (m_scopeStack tree') = Suc (length (m_scopeStack tree))"
    by (simp add: pushScope_def)
  then obtain top below where st: "m_scopeStack tree' = top # below"
    by (cases "m_scopeStack tree'") auto
  then have pop: "popScope tree' = Inr (tree'\<lparr>m_scopeStack := below\<rparr>)"
    by (simp add: popScope_def)
  have tick: "ScopeNode_tick m_params (Some child) tree
                = Some (Inr (result, tree'\<lparr>m_scopeStack := below\<rparr>))"
    using frame c pop by (simp add: ScopeNode_tick_def tick_ptr_def)
  have "length (m_scopeStack (tree'\<lparr>m_scopeStack := below\<rparr>)) = length (m_scopeStack tree)"
    using len st by simp
  with frame c pop tick
  show "\<exists>frame result tree' popped.
          ScopeNode_resolve m_params (m_blackboard tree) tree Map.empty = Some (Some frame)
          \<and> child (pushScope frame tree) = (result, tree')
          \<and> popScope tree' = Inr popped
          \<and> ScopeNode_tick m_params (Some child) tree = Some (Inr (result, popped))
          \<and> length (m_scopeStack popped) = length (m_scopeStack tree)"
    by blast
qed

lemma example_resolve_hp:
  "getFactRef (m_blackboard example_tree) ''@hp'' (Some example_tree) = Some (Some ''10'')"
proof -
  have "getFactRef (m_blackboard example_tree) ''hp'' (Some example_tree) = Some (Some ''hp'')"
    by (rule getFactRef_literal) simp_all
  then show ?thesis
    by (simp add: getFactRef_indirect getFact_def example_tree_def)
qed

lemma example_resolve_missing:
  "getFactRef (m_blackboard example_tree) ''#missing'' (Some example_tree) = Some None"
  by (rule getFactRef_scope_miss) (simp add: getScopedVar_def example_tree_def)

lemma example_resolve_literal:
  "getFactRef (m_blackboard example_tree) ''x'' (Some example_tree) = Some (Some ''x'')"
  by (rule getFactRef_literal) simp_all

lemma ScopeNode_tick_example:
  "ScopeNode_tick [(''target'', ''@hp'')] (Some (scope_probe ''target'' Invalid)) example_tree
     = Some (Inr (Invalid, example_tree\<lparr>host := [Some ''10'']\<rparr>))"
  using example_resolve_hp
  by (simp add: ScopeNode_tick_def tick_ptr_def pushScope_def popScope_def scope_probe_def
      getScopedVar_def getScopeVar_def example_tree_def)

text \<open>
  The theorem at \<open>example_tree\<close>: a Scope whose second parameter names a scope variable
  that does not exist, and a Scope whose parameter resolves through the fact \<open>hp\<close> over a
  child that returns \<open>Invalid\<close>.
\<close>

theorem ScopeNode_tick_scope_depth_witness:
  "ScopeNode_tick [(''a'', ''x''), (''b'', ''#missing'')] (Some (scope_probe ''a'' Success))
     example_tree = Some (Inr (Invalid, example_tree)) \<and>
   (\<exists>result popped.
      ScopeNode_tick [(''target'', ''@hp'')] (Some (scope_probe ''target'' Invalid)) example_tree
        = Some (Inr (result, popped))
      \<and> length (m_scopeStack popped) = length (m_scopeStack example_tree))"
proof -
  have pre: "\<forall>p \<in> set [(''a'', ''x'')].
               getFactRef (m_blackboard example_tree) (snd p) (Some example_tree) \<noteq> None"
    using example_resolve_literal by simp
  have item: "getFactRef (m_blackboard example_tree) (snd (''b'', ''#missing'')) (Some example_tree)
                = Some None"
    using example_resolve_missing by simp
  have split: "[(''a'', ''x''), (''b'', ''#missing'')] = [(''a'', ''x'')] @ (''b'', ''#missing'') # []"
    by simp
  from ScopeNode_tick_scope_depth [where m_params = "[(''a'', ''x''), (''b'', ''#missing'')]"
      and pre = "[(''a'', ''x'')]" and item = "(''b'', ''#missing'')" and post = "[]"
      and tree = example_tree and m_child = "Some (scope_probe ''a'' Success)"]
    split pre item
  have a: "ScopeNode_tick [(''a'', ''x''), (''b'', ''#missing'')] (Some (scope_probe ''a'' Success))
             example_tree = Some (Inr (Invalid, example_tree))"
    by blast
  have all: "\<forall>p \<in> set [(''target'', ''@hp'')].
               \<exists>v. getFactRef (m_blackboard example_tree) (snd p) (Some example_tree) = Some (Some v)"
    using example_resolve_hp by simp
  have balanced: "\<forall>t. length (m_scopeStack (snd (scope_probe ''target'' Invalid t)))
                    = length (m_scopeStack t)"
    by (simp add: scope_probe_def)
  from ScopeNode_tick_scope_depth [where m_params = "[(''target'', ''@hp'')]"
      and tree = example_tree and child = "scope_probe ''target'' Invalid"]
    all balanced
  have b: "\<exists>result popped.
      ScopeNode_tick [(''target'', ''@hp'')] (Some (scope_probe ''target'' Invalid)) example_tree
        = Some (Inr (result, popped))
      \<and> length (m_scopeStack popped) = length (m_scopeStack example_tree)"
    by blast
  from a b show ?thesis by (rule conjI)
qed

section \<open>Properties of the virtual machine\<close>

lemma reset_start_offset:
  "m_pc (reset \<lparr>m_pc = pc, m_threadStart = 6, m_current = current\<rparr>) = 6"
  "m_pc (reset \<lparr>m_pc = pc, m_threadStart = 2 ^ 63, m_current = current\<rparr>) = - (2 ^ 63)"
  by (simp_all add: reset_def)

lemmas ops_defs = ops_run_def ops_run_thr_def ops_run_dec_def ops_bra_f_def ops_bra_t_def
  ops_set_f_def ops_set_t_def ops_neg_def ops_chk_fact_def ops_rm_fact_def

lemma example_step_run: "step 0 (Some (example_vm 0 BTVM_Invalid []))
   = Some (Inr (BTVM_Running, Some (example_vm 2 BTVM_Failure [0])))"
  apply (simp add: step_def example_vm_def)
  apply (subst eval.simps)
  apply (simp add: subscript_def example_program_def eval_case_def eval_run_def ops_defs
      leaf_logged_def)
  done

lemma example_step_branch: "step 0 (Some (example_vm 2 BTVM_Failure [0]))
   = Some (Inr (BTVM_Running, Some (example_vm 4 BTVM_Invalid [0])))"
  apply (simp add: step_def example_vm_def)
  apply (subst eval.simps)
  apply (simp add: subscript_def example_program_def eval_case_def eval_branch_def ops_defs)
  done

lemma example_step_next: "step 0 (Some (example_vm 4 BTVM_Invalid [0]))
   = Some (Inr (BTVM_Running, Some (example_vm 6 BTVM_Success [0, 1])))"
  apply (simp add: step_def example_vm_def)
  apply (subst eval.simps)
  apply (simp add: subscript_def example_program_def eval_case_def eval_run_def ops_defs
      leaf_logged_def)
  done

text \<open>
  \<^verbatim>\<open>eval\<close> sets \<^verbatim>\<open>m_current\<close> to \<^verbatim>\<open>Invalid\<close> before it looks at the
  opcode, so at a \<^verbatim>\<open>bra_f\<close> the test \<^verbatim>\<open>m_current == Status::Failure\<close> is
  false whatever the instruction before left: the thread moves on by 2.
\<close>

lemma eval_bra_f_falls_through:
  assumes "subscript (m_threads vm) (int tid) = Inr thread"
    and "subscript (m_program prog) (m_pc thread) = Inr ops_bra_f"
  shows "eval prog tid vm =
           Some (Inr (BTVM_Running,
                      vm\<lparr>m_threads :=
                           (m_threads vm)[tid := thread\<lparr>m_current := BTVM_Invalid,
                                                        m_pc := m_pc thread + 2\<rparr>]\<rparr>))"
  apply (subst eval.simps)
  using assms
  apply (simp add: eval_case_def eval_branch_def ops_defs Let_def)
  done

text \<open>
  Claim C8. The claim has the thread's \<^verbatim>\<open>m_pc\<close>, after the \<^verbatim>\<open>run\<close> of a
  leaf that returns \<^verbatim>\<open>Failure\<close> and the \<^verbatim>\<open>bra_f\<close> with offset 4 that follows,
  at the branch target 2 + 4 = 6, and leaf 1 never invoked. On the program
  \<^verbatim>\<open>run(0); bra_f(+4); run(1)\<close> the first step runs leaf 0 and leaves
  \<^verbatim>\<open>m_pc = 2\<close>, \<^verbatim>\<open>m_current = Failure\<close>; the second step leaves
  \<^verbatim>\<open>m_pc = 4\<close>, the \<^verbatim>\<open>run\<close> of leaf 1; the third step invokes leaf 1.
\<close>

theorem step_branch_if_failure_not_taken:
  "step 0 (Some (example_vm 0 BTVM_Invalid []))
     = Some (Inr (BTVM_Running, Some (example_vm 2 BTVM_Failure [0]))) \<and>
   step 0 (Some (example_vm 2 BTVM_Failure [0]))
     = Some (Inr (BTVM_Running, Some (example_vm 4 BTVM_Invalid [0]))) \<and>
   step 0 (Some (example_vm 4 BTVM_Invalid [0]))
     = Some (Inr (BTVM_Running, Some (example_vm 6 BTVM_Success [0, 1])))"
  using example_step_run example_step_branch example_step_next by simp

section \<open>Properties of the utility selector\<close>

lemma Selector_loop_append:
  "Selector_loop (xs @ ys) w chosen best =
     (case Selector_loop xs w chosen best of (c, b) \<Rightarrow> Selector_loop ys w c b)"
  by (induction xs arbitrary: chosen best) (simp_all add: Let_def)

lemma Selector_loop_unchanged:
  "\<forall>p \<in> set qs. \<not> Qualifier_score (fst p) w > best
    \<Longrightarrow> Selector_loop qs w chosen best = (chosen, best)"
  by (induction qs arbitrary: chosen best) (simp_all add: Let_def)

lemma Selector_loop_chosen:
  "fst (Selector_loop qs w chosen best) \<in> set (chosen # qs)"
  by (induction qs arbitrary: chosen best) (auto simp add: Let_def)

lemma Selector_loop_best:
  "snd (Selector_loop qs w chosen best) = best \<or>
   snd (Selector_loop qs w chosen best) \<in> (\<lambda>p. Qualifier_score (fst p) w) ` set qs"
proof (induction qs arbitrary: chosen best)
  case Nil
  then show ?case by simp
next
  case (Cons q qs)
  show ?case
  proof (cases "Qualifier_score (fst q) w > best")
    case True
    with Cons.IH [of q "Qualifier_score (fst q) w"] show ?thesis
      by (auto simp add: Let_def)
  next
    case False
    with Cons.IH [of chosen best] show ?thesis by (auto simp add: Let_def)
  qed
qed

lemma Selector_loop_winner:
  fixes q :: "('w, 'a::{zero,plus,preorder}) QualifierActionPair"
  assumes "best < Qualifier_score (fst q) w"
    and "\<forall>p \<in> set pre. Qualifier_score (fst p) w < Qualifier_score (fst q) w"
    and "\<forall>p \<in> set post. Qualifier_score (fst p) w \<le> Qualifier_score (fst q) w"
  shows "Selector_loop (pre @ q # post) w chosen best = (q, Qualifier_score (fst q) w)"
proof -
  obtain c b where pre: "Selector_loop pre w chosen best = (c, b)"
    by (cases "Selector_loop pre w chosen best")
  from Selector_loop_best [of pre w chosen best] pre assms(1,2)
  have b: "b < Qualifier_score (fst q) w" by auto
  have "\<forall>p \<in> set post. \<not> Qualifier_score (fst p) w > Qualifier_score (fst q) w"
    using assms(3) by (auto simp add: less_le_not_le)
  from Selector_loop_unchanged [OF this]
  have post: "Selector_loop post w q (Qualifier_score (fst q) w) = (q, Qualifier_score (fst q) w)" .
  show ?thesis
    using pre b post by (simp add: Selector_loop_append Let_def)
qed

text \<open>
  Claim C10. \<^verbatim>\<open>Selector::eval\<close> does to the host state what exactly one action
  does, the default action or the action of a qualifier. In the scan, the next qualifier
  replaces the current choice if its score is strictly above the current best, and
  otherwise leaves choice and best as they are. So the qualifier \<open>i\<close> is the one whose
  action runs when its score is strictly above the default threshold and strictly above
  every earlier score, and no later score is above it (a later qualifier with the same
  score does not replace it); and the default action runs when no qualifier's score is
  strictly above the default threshold. Scores are of any type with a preorder.
\<close>

theorem Selector_eval_choice:
  fixes sel :: "('w, 'a::{zero,plus,preorder}) Selector"
  shows
   "(\<exists>p \<in> set (defaultAction sel # qualifiers sel). Selector_eval sel w = snd p w) \<and>
    (Selector_loop (qs @ [q]) w chosen best =
       (case Selector_loop qs w chosen best of
          (c, b) \<Rightarrow> if Qualifier_score (fst q) w > b then (q, Qualifier_score (fst q) w)
                    else (c, b))) \<and>
    (i < length (qualifiers sel)
       \<and> threshold (fst (defaultAction sel)) < Qualifier_score (fst (qualifiers sel ! i)) w
       \<and> (\<forall>j < i. Qualifier_score (fst (qualifiers sel ! j)) w
                     < Qualifier_score (fst (qualifiers sel ! i)) w)
       \<and> (\<forall>j. i < j \<and> j < length (qualifiers sel)
                \<longrightarrow> Qualifier_score (fst (qualifiers sel ! j)) w
                     \<le> Qualifier_score (fst (qualifiers sel ! i)) w)
     \<longrightarrow> Selector_eval sel w = snd (qualifiers sel ! i) w) \<and>
    ((\<forall>p \<in> set (qualifiers sel).
         \<not> Qualifier_score (fst p) w > threshold (fst (defaultAction sel)))
     \<longrightarrow> Selector_eval sel w = snd (defaultAction sel) w)"
proof (intro conjI impI)
  obtain c b where l: "Selector_loop (qualifiers sel) w (defaultAction sel)
             (threshold (fst (defaultAction sel))) = (c, b)"
    by (cases "Selector_loop (qualifiers sel) w (defaultAction sel)
             (threshold (fst (defaultAction sel)))")
  with Selector_loop_chosen [of "qualifiers sel" w "defaultAction sel"
      "threshold (fst (defaultAction sel))"]
  have "c \<in> set (defaultAction sel # qualifiers sel)" by simp
  moreover from l have "Selector_eval sel w = snd c w" by (simp add: Selector_eval_def)
  ultimately show "\<exists>p \<in> set (defaultAction sel # qualifiers sel). Selector_eval sel w = snd p w"
    by blast
next
  show "Selector_loop (qs @ [q]) w chosen best =
       (case Selector_loop qs w chosen best of
          (c, b) \<Rightarrow> if Qualifier_score (fst q) w > b then (q, Qualifier_score (fst q) w)
                    else (c, b))"
    by (simp add: Selector_loop_append Let_def split: prod.splits)
next
  let ?qs = "qualifiers sel"
  let ?sc = "\<lambda>p. Qualifier_score (fst p) w"
  assume a: "i < length ?qs
       \<and> threshold (fst (defaultAction sel)) < ?sc (?qs ! i)
       \<and> (\<forall>j < i. ?sc (?qs ! j) < ?sc (?qs ! i))
       \<and> (\<forall>j. i < j \<and> j < length ?qs \<longrightarrow> ?sc (?qs ! j) \<le> ?sc (?qs ! i))"
  then have split: "?qs = take i ?qs @ ?qs ! i # drop (Suc i) ?qs"
    by (simp add: id_take_nth_drop)
  have pre: "\<forall>p \<in> set (take i ?qs). ?sc p < ?sc (?qs ! i)"
  proof
    fix p assume "p \<in> set (take i ?qs)"
    then obtain j where "j < length (take i ?qs)" "take i ?qs ! j = p"
      by (auto simp add: in_set_conv_nth)
    with a show "?sc p < ?sc (?qs ! i)" by auto
  qed
  have post: "\<forall>p \<in> set (drop (Suc i) ?qs). ?sc p \<le> ?sc (?qs ! i)"
  proof
    fix p assume "p \<in> set (drop (Suc i) ?qs)"
    then obtain j where j: "j < length (drop (Suc i) ?qs)" "drop (Suc i) ?qs ! j = p"
      by (auto simp add: in_set_conv_nth)
    then have "?qs ! (Suc i + j) = p" "Suc i + j < length ?qs" by auto
    with a show "?sc p \<le> ?sc (?qs ! i)" by auto
  qed
  from a have best: "threshold (fst (defaultAction sel)) < ?sc (?qs ! i)" by simp
  have "Selector_loop (take i ?qs @ ?qs ! i # drop (Suc i) ?qs) w (defaultAction sel)
          (threshold (fst (defaultAction sel))) = (?qs ! i, ?sc (?qs ! i))"
    by (rule Selector_loop_winner [OF best pre post])
  with split have "Selector_loop ?qs w (defaultAction sel)
          (threshold (fst (defaultAction sel))) = (?qs ! i, ?sc (?qs ! i))"
    by simp
  then show "Selector_eval sel w = snd (?qs ! i) w"
    by (simp add: Selector_eval_def)
next
  assume "\<forall>p \<in> set (qualifiers sel).
         \<not> Qualifier_score (fst p) w > threshold (fst (defaultAction sel))"
  from Selector_loop_unchanged [OF this]
  show "Selector_eval sel w = snd (defaultAction sel) w"
    by (simp add: Selector_eval_def)
qed

text \<open>
  The theorem at the two example selectors: the second qualifier, whose score 7 ties with
  the third, is chosen; and the default action runs when the best score only equals the
  default threshold 0.
\<close>

theorem Selector_eval_choice_witness:
  "Selector_eval example_selector [] = [2] \<and> Selector_eval example_selector_low [] = [0]"
proof -
  have len: "length (qualifiers example_selector) = 3" by (simp add: example_selector_def)
  have s0: "Qualifier_score (fst (qualifiers example_selector ! 0)) [] = 5"
    and s1: "Qualifier_score (fst (qualifiers example_selector ! 1)) [] = 7"
    and s2: "Qualifier_score (fst (qualifiers example_selector ! 2)) [] = 7"
    by (simp_all add: example_selector_def Qualifier_score_def Qualifier_FixedScore_def
        Qualifier_SumOfChildren_def)
  have thr: "threshold (fst (defaultAction example_selector)) = 0"
    by (simp add: example_selector_def Qualifier_DefaultAction_def)
  have hyp: "1 < length (qualifiers example_selector)
       \<and> threshold (fst (defaultAction example_selector))
           < Qualifier_score (fst (qualifiers example_selector ! 1)) []
       \<and> (\<forall>j < 1. Qualifier_score (fst (qualifiers example_selector ! j)) []
                     < Qualifier_score (fst (qualifiers example_selector ! 1)) [])
       \<and> (\<forall>j. 1 < j \<and> j < length (qualifiers example_selector)
                \<longrightarrow> Qualifier_score (fst (qualifiers example_selector ! j)) []
                     \<le> Qualifier_score (fst (qualifiers example_selector ! 1)) [])"
  proof (intro conjI allI impI)
    show "1 < length (qualifiers example_selector)" using len by simp
    show "threshold (fst (defaultAction example_selector))
           < Qualifier_score (fst (qualifiers example_selector ! 1)) []"
      using thr s1 by simp
    show "Qualifier_score (fst (qualifiers example_selector ! j)) []
            < Qualifier_score (fst (qualifiers example_selector ! 1)) []" if "j < 1" for j
      using that s0 s1 by simp
    show "Qualifier_score (fst (qualifiers example_selector ! j)) []
            \<le> Qualifier_score (fst (qualifiers example_selector ! 1)) []"
      if "1 < j \<and> j < length (qualifiers example_selector)" for j
    proof -
      from that len have "j = 2" by simp
      with s1 s2 show ?thesis by simp
    qed
  qed
  from Selector_eval_choice [where sel = example_selector and w = "[]" and i = 1] hyp
  have "Selector_eval example_selector [] = snd (qualifiers example_selector ! 1) []"
    by blast
  then have a: "Selector_eval example_selector [] = [2]"
    by (simp add: example_selector_def log_action_def)
  have low: "\<forall>p \<in> set (qualifiers example_selector_low).
         \<not> Qualifier_score (fst p) [] > threshold (fst (defaultAction example_selector_low))"
    by (simp add: example_selector_low_def Qualifier_score_def Qualifier_FixedScore_def
        Qualifier_DefaultAction_def)
  from Selector_eval_choice [where sel = example_selector_low and w = "[]"] low
  have "Selector_eval example_selector_low [] = snd (defaultAction example_selector_low) []"
    by blast
  then have b: "Selector_eval example_selector_low [] = [0]"
    by (simp add: example_selector_low_def log_action_def)
  from a b show ?thesis by (rule conjI)
qed

end
